theory Spec2Isabelle
  imports Complex_Main "HOL-Library.Log_Nat" "HOL-Library.Multiset" "HOL-Library.Sublist"
    "HOL-Library.Product_Lexorder"
begin

section \<open>Data model (types.ts)\<close>

text \<open>
  The ranking and filtering engine of the task list: \<^verbatim>\<open>calculateTaskScore\<close>,
  \<^verbatim>\<open>sortTasksByPriority\<close>, \<^verbatim>\<open>filterTasks\<close>, \<^verbatim>\<open>sortAndFilterTasks\<close>,
  \<^verbatim>\<open>getTaskCounts\<close> (utils/taskUtils.ts) and \<^verbatim>\<open>hoursUntilDeadline\<close>
  (utils/dateUtils.ts).
\<close>

datatype Priority = LOW | MEDIUM | HIGH

datatype Category = WORK | PERSONAL | STUDY | OTHER

text \<open>
  \<^verbatim>\<open>interface Task\<close>. The date fields are ISO 8601 strings in the source. The only thing
  the engine does with \<^verbatim>\<open>deadline\<close> is \<^verbatim>\<open>new Date(deadline).getTime()\<close>, so the
  field holds that instant: integer milliseconds since the epoch, of magnitude at most
  8.64e15 for every date JavaScript can represent. A string that does not parse
  (\<^verbatim>\<open>getTime()\<close> is NaN) has no counterpart here. The other fields are carried along
  unchanged.
\<close>

record Task =
  taskId :: string
  userId :: string
  title :: string
  description :: string
  dateTime :: string
  deadline :: int
  priority :: Priority
  category :: Category
  completed :: bool
  createdAt :: string
  updatedAt :: string

section \<open>The wall clock\<close>

text \<open>
  \<^verbatim>\<open>new Date()\<close> reads the wall clock. A clock is the sequence of its readings in
  milliseconds; the state threaded through the functions below is the number of readings
  taken so far, so the \<open>k\<close>-th call of \<^verbatim>\<open>new Date()\<close> sees \<open>clk k\<close>.
\<close>

type_synonym clock = "nat \<Rightarrow> int"

definition newDate :: "clock \<Rightarrow> nat \<Rightarrow> int \<times> nat" where
  "newDate clk k = (clk k, Suc k)"

section \<open>JavaScript numbers\<close>

text \<open>
  A JavaScript \<^verbatim>\<open>number\<close> is an IEEE 754 binary64 value, and every \<^verbatim>\<open>+\<close>,
  \<^verbatim>\<open>-\<close> and \<^verbatim>\<open>/\<close> returns the exact result rounded to the nearest such value,
  ties to the even significand. A finite binary64 value is modelled by the rational it
  denotes, and \<open>fl\<close> is that rounding: \<open>ilog2 x\<close> is the binary exponent of a positive
  \<open>x\<close>, the quantum is \<open>2 powi (ilog2 \<bar>x\<bar> - 52)\<close> (53 significant bits), and the
  significand is rounded to the nearest integer by \<open>round_even\<close>. The exponent range is
  not bounded: \<open>fl\<close> agrees with binary64 for \<open>x = 0\<close> and for
  \<open>2 powi (- 1022) \<le> \<bar>x\<bar> \<le> 2 powi 1023\<close>, which holds of every value computed below
  from time values (integers of magnitude at most 8.64e15, which binary64 holds exactly).
  NaN and the infinities are not modelled.
\<close>

definition round_even :: "rat \<Rightarrow> int" where
  "round_even r =
     (let n = \<lfloor>r\<rfloor>; f = r - of_int n
      in if f < 1 / 2 then n else if 1 / 2 < f then n + 1 else if even n then n else n + 1)"

definition ilog2 :: "rat \<Rightarrow> int" where
  "ilog2 x = (if 1 \<le> x then bitlen \<lfloor>x\<rfloor> - 1 else - bitlen (\<lceil>1 / x\<rceil> - 1))"

definition fl :: "rat \<Rightarrow> rat" where
  "fl x =
     (if x = 0 then 0
      else let q = 2 powi (ilog2 \<bar>x\<bar> - 52)
           in sgn x * of_int (round_even (\<bar>x\<bar> / q)) * q)"

section \<open>Scoring (dateUtils.ts, taskUtils.ts)\<close>

text \<open>
  \<^verbatim>\<open>getTime()\<close> returns integers, which binary64 holds exactly; the subtraction and
  the division round. \<open>1000 * 60 * 60\<close> is the integer 3600000.
\<close>

definition hoursUntilDeadline :: "clock \<Rightarrow> int \<Rightarrow> nat \<Rightarrow> rat \<times> nat" where
  "hoursUntilDeadline clk dl k =
     (let deadlineDate = dl;
          (now, k') = newDate clk k;
          millisRemaining = fl (of_int deadlineDate - of_int now)
      in (fl (millisRemaining / (1000 * 60 * 60)), k'))"

fun PRIORITY_WEIGHTS :: "Priority \<Rightarrow> rat" where
  "PRIORITY_WEIGHTS HIGH = 100"
| "PRIORITY_WEIGHTS MEDIUM = 50"
| "PRIORITY_WEIGHTS LOW = 10"

definition calculateTaskScore :: "clock \<Rightarrow> Task \<Rightarrow> nat \<Rightarrow> rat \<times> nat" where
  "calculateTaskScore clk task k =
     (if completed task then (- 1000, k)
      else
        let score = PRIORITY_WEIGHTS (priority task);
            (hoursRemaining, k') = hoursUntilDeadline clk (deadline task) k;
            score = (if hoursRemaining < 0 then fl (score + 1000)
                     else if hoursRemaining < 24 then fl (score + 500)
                     else if hoursRemaining < 48 then fl (score + 200)
                     else if hoursRemaining < 168 then fl (score + 50)
                     else score);
            score = fl (score - min hoursRemaining 1000)
        in (score, k'))"

section \<open>Sorting (taskUtils.ts)\<close>

text \<open>
  The comparator handed to \<^verbatim>\<open>Array.prototype.sort\<close> in \<^verbatim>\<open>sortTasksByPriority\<close>.
  Each call scores both tasks afresh, so it reads the clock once for every task that is
  not completed.
\<close>

definition compareTasks :: "clock \<Rightarrow> Task \<Rightarrow> Task \<Rightarrow> nat \<Rightarrow> rat \<times> nat" where
  "compareTasks clk a b k =
     (if completed a \<and> \<not> completed b then (1, k)
      else if \<not> completed a \<and> completed b then (- 1, k)
      else
        let (scoreA, k1) = calculateTaskScore clk a k;
            (scoreB, k2) = calculateTaskScore clk b k1
        in if scoreA \<noteq> scoreB then (fl (scoreB - scoreA), k2)
           else
             let deadlineA = deadline a;
                 deadlineB = deadline b
             in (fl (of_int deadlineA - of_int deadlineB), k2))"

text \<open>
  \<^verbatim>\<open>Array.prototype.sort\<close> belongs to the JavaScript engine. ECMAScript fixes its
  contract for a consistent comparator (a stable sort; a negative value puts the first
  argument first) and leaves the algorithm, and with it the pairs that are compared, to
  the engine. The model is a stable insertion sort: it sorts the tail, then moves the head
  past every element that the comparator puts strictly before it. The comparator is
  called as \<open>cmp y x\<close> with \<open>y\<close> the element that came later in the input and tested
  for \<open>< 0\<close>, which is how V8 compares two neighbours; on a list of two elements this
  is the engine's one comparison. For a comparator whose values do not depend on the
  clock the result is the one stable sorted list, whatever the algorithm. For a comparator
  that changes between calls, the result and the number of clock readings on longer lists
  are those of this algorithm and may differ from an engine's.
\<close>

fun array_insert ::
  "('a \<Rightarrow> 'a \<Rightarrow> nat \<Rightarrow> rat \<times> nat) \<Rightarrow> 'a \<Rightarrow> 'a list \<Rightarrow> nat \<Rightarrow> 'a list \<times> nat" where
  "array_insert cmp x [] k = ([x], k)"
| "array_insert cmp x (y # ys) k =
     (let (v, k') = cmp y x k
      in if v < 0 then (let (zs, k'') = array_insert cmp x ys k' in (y # zs, k''))
         else (x # y # ys, k'))"

fun array_sort ::
  "('a \<Rightarrow> 'a \<Rightarrow> nat \<Rightarrow> rat \<times> nat) \<Rightarrow> 'a list \<Rightarrow> nat \<Rightarrow> 'a list \<times> nat" where
  "array_sort cmp [] k = ([], k)"
| "array_sort cmp (x # xs) k =
     (let (ys, k') = array_sort cmp xs k in array_insert cmp x ys k')"

definition sortTasksByPriority :: "clock \<Rightarrow> Task list \<Rightarrow> nat \<Rightarrow> Task list \<times> nat" where
  "sortTasksByPriority clk tasks k = array_sort (compareTasks clk) tasks k"

section \<open>Filtering and counting (taskUtils.ts)\<close>

text \<open>
  \<^verbatim>\<open>TaskFilter\<close> is the string union \<^verbatim>\<open>'all' | 'active' | 'completed'\<close>; the
  \<^verbatim>\<open>switch\<close> compares the run-time string and has a \<^verbatim>\<open>default\<close> branch, so the
  selection is a string here.
\<close>

definition filterTasks :: "Task list \<Rightarrow> string \<Rightarrow> Task list" where
  "filterTasks tasks flt =
     (if flt = ''active'' then filter (\<lambda>task. \<not> completed task) tasks
      else if flt = ''completed'' then filter (\<lambda>task. completed task) tasks
      else tasks)"

definition sortAndFilterTasks :: "clock \<Rightarrow> Task list \<Rightarrow> string \<Rightarrow> nat \<Rightarrow> Task list \<times> nat" where
  "sortAndFilterTasks clk tasks flt k =
     (let filtered = filterTasks tasks flt
      in sortTasksByPriority clk filtered k)"

text \<open>\<^verbatim>\<open>Record<TaskFilter, number>\<close>, the value of \<^verbatim>\<open>getTaskCounts\<close>.\<close>

record TaskCounts =
  count_all :: nat
  count_active :: nat
  count_completed :: nat

definition getTaskCounts :: "Task list \<Rightarrow> TaskCounts" where
  "getTaskCounts tasks =
     \<lparr> count_all = length tasks,
       count_active = length (filter (\<lambda>task. \<not> completed task) tasks),
       count_completed = length (filter (\<lambda>task. completed task) tasks) \<rparr>"

section \<open>Arrays as mutable objects\<close>

text \<open>
  A JavaScript array is handled by reference, and \<^verbatim>\<open>Array.prototype.sort\<close> sorts in
  place. A store maps references to array contents; \<open>fresh\<close> is the next unused
  reference. \<^verbatim>\<open>[...tasks]\<close> and \<^verbatim>\<open>tasks.filter(p)\<close> allocate a new array,
  \<^verbatim>\<open>arr.sort(cmp)\<close> overwrites \<open>arr\<close> and returns the same reference.
\<close>

record store =
  arrays :: "nat \<Rightarrow> Task list"
  fresh :: nat

definition array_new :: "Task list \<Rightarrow> store \<Rightarrow> nat \<times> store" where
  "array_new xs s = (fresh s, s\<lparr>arrays := (arrays s)(fresh s := xs), fresh := Suc (fresh s)\<rparr>)"

definition spread_ref :: "nat \<Rightarrow> store \<Rightarrow> nat \<times> store" where
  "spread_ref r s = array_new (arrays s r) s"

definition filter_ref :: "(Task \<Rightarrow> bool) \<Rightarrow> nat \<Rightarrow> store \<Rightarrow> nat \<times> store" where
  "filter_ref p r s = array_new (filter p (arrays s r)) s"

definition sort_ref ::
  "(Task \<Rightarrow> Task \<Rightarrow> nat \<Rightarrow> rat \<times> nat) \<Rightarrow> nat \<Rightarrow> store \<Rightarrow> nat \<Rightarrow> (nat \<times> store) \<times> nat" where
  "sort_ref cmp r s k =
     (let (ys, k') = array_sort cmp (arrays s r) k
      in ((r, s\<lparr>arrays := (arrays s)(r := ys)\<rparr>), k'))"

text \<open>\<^verbatim>\<open>return [...tasks].sort((a, b) => ...)\<close>\<close>

definition sortTasksByPriority_ref ::
  "clock \<Rightarrow> nat \<Rightarrow> store \<Rightarrow> nat \<Rightarrow> (nat \<times> store) \<times> nat" where
  "sortTasksByPriority_ref clk tasks s k =
     (let (copy, s1) = spread_ref tasks s
      in sort_ref (compareTasks clk) copy s1 k)"

text \<open>The \<^verbatim>\<open>'all'\<close> and \<^verbatim>\<open>default\<close> branches return the argument itself.\<close>

definition filterTasks_ref :: "nat \<Rightarrow> string \<Rightarrow> store \<Rightarrow> nat \<times> store" where
  "filterTasks_ref tasks flt s =
     (if flt = ''active'' then filter_ref (\<lambda>task. \<not> completed task) tasks s
      else if flt = ''completed'' then filter_ref (\<lambda>task. completed task) tasks s
      else (tasks, s))"

section \<open>The specification's wording\<close>

text \<open>
  The score as the specification words it: base weight plus the first matching urgency
  tier minus the capped hours remaining, with \<open>now\<close> an argument. \<open>exact_score\<close> reads
  the formula in exact arithmetic; \<open>spec_score\<close> reads it in the arithmetic of JavaScript
  numbers, where the subtraction of the two instants, the division by the milliseconds
  of an hour and the final subtraction each round to binary64.
\<close>

definition spec_base :: "Priority \<Rightarrow> rat" where
  "spec_base p = (case p of HIGH \<Rightarrow> 100 | MEDIUM \<Rightarrow> 50 | LOW \<Rightarrow> 10)"

definition spec_bonus :: "rat \<Rightarrow> rat" where
  "spec_bonus h =
     (if h < 0 then 1000 else if h < 24 then 500 else if h < 48 then 200
      else if h < 168 then 50 else 0)"

definition exact_hoursRemaining :: "int \<Rightarrow> Task \<Rightarrow> rat" where
  "exact_hoursRemaining now task = of_int (deadline task - now) / 3600000"

definition exact_score :: "int \<Rightarrow> Task \<Rightarrow> rat" where
  "exact_score now task =
     (if completed task then - 1000
      else spec_base (priority task) + spec_bonus (exact_hoursRemaining now task)
           - min (exact_hoursRemaining now task) 1000)"

definition spec_hoursRemaining :: "int \<Rightarrow> Task \<Rightarrow> rat" where
  "spec_hoursRemaining now task = fl (fl (of_int (deadline task) - of_int now) / 3600000)"

definition spec_score :: "int \<Rightarrow> Task \<Rightarrow> rat" where
  "spec_score now task =
     (if completed task then - 1000
      else fl (spec_base (priority task) + spec_bonus (spec_hoursRemaining now task)
               - min (spec_hoursRemaining now task) 1000))"

text \<open>
  The score of a task when the clock reads \<open>now\<close>, computed by the code, and the order
  of the specification, top-down: completion status, then score descending, then deadline
  ascending. \<open>spec_tied\<close> holds of two tasks that the order cannot tell apart.
\<close>

definition frozen :: "int \<Rightarrow> clock" where
  "frozen now k = now"

definition scoreAt :: "int \<Rightarrow> Task \<Rightarrow> rat" where
  "scoreAt now task = fst (calculateTaskScore (frozen now) task 0)"

definition spec_precedes :: "int \<Rightarrow> Task \<Rightarrow> Task \<Rightarrow> bool" where
  "spec_precedes now a b \<longleftrightarrow>
     (\<not> completed a \<and> completed b) \<or>
     (completed a = completed b \<and>
        (scoreAt now b < scoreAt now a \<or>
         (scoreAt now a = scoreAt now b \<and> deadline a \<le> deadline b)))"

definition spec_tied :: "int \<Rightarrow> Task \<Rightarrow> Task \<Rightarrow> bool" where
  "spec_tied now a b \<longleftrightarrow>
     completed a = completed b \<and> scoreAt now a = scoreAt now b \<and> deadline a = deadline b"

text \<open>The sort key that the comparator realises on a clock that stands still.\<close>

definition taskKey :: "int \<Rightarrow> Task \<Rightarrow> bool \<times> rat \<times> int" where
  "taskKey now task = (completed task, - spec_score now task, deadline task)"

section \<open>Example data\<close>

definition mkTask :: "string \<Rightarrow> Priority \<Rightarrow> int \<Rightarrow> bool \<Rightarrow> Task" where
  "mkTask i p d c =
     \<lparr> taskId = i, userId = ''u1'', title = ''task'', description = [],
       dateTime = ''2027-01-15T08:00:00.000Z'', deadline = d, priority = p,
       category = WORK, completed = c,
       createdAt = ''2027-01-01T00:00:00.000Z'', updatedAt = ''2027-01-01T00:00:00.000Z'' \<rparr>"

text \<open>2027-01-15T08:00:00.000Z in milliseconds since the epoch.\<close>

definition now0 :: int where
  "now0 = 1800000000000"

text \<open>
  The scenario of the specification: \<open>taskA\<close> is HIGH and one hour overdue, \<open>taskB\<close> is
  MEDIUM and due in 50 hours, \<open>taskC\<close> is \<open>taskB\<close> completed.
\<close>

definition taskA :: Task where
  "taskA = mkTask ''A'' HIGH (now0 - 3600000) False"

definition taskB :: Task where
  "taskB = mkTask ''B'' MEDIUM (now0 + 180000000) False"

definition taskC :: Task where
  "taskC = mkTask ''C'' MEDIUM (now0 + 180000000) True"

text \<open>A HIGH task due in half an hour, and a HIGH task due one millisecond ago.\<close>

definition taskH :: Task where
  "taskH = mkTask ''H'' HIGH (now0 + 1800000) False"

definition taskL :: Task where
  "taskL = mkTask ''L'' HIGH (now0 - 1) False"

text \<open>
  A HIGH task due in 100 hours and one millisecond and a MEDIUM task due in 50 hours and
  one millisecond: in exact arithmetic both would score 179999999/3600000.
\<close>

definition taskHX :: Task where
  "taskHX = mkTask ''HX'' HIGH (now0 + 360000001) False"

definition taskMX :: Task where
  "taskMX = mkTask ''MX'' MEDIUM (now0 + 180000001) False"

text \<open>Two open LOW tasks; \<open>taskY\<close> is due one millisecond before \<open>taskX\<close>.\<close>

definition taskX :: Task where
  "taskX = mkTask ''X'' LOW (now0 + 180000000) False"

definition taskY :: Task where
  "taskY = mkTask ''Y'' LOW (now0 + 179999999) False"

text \<open>A MEDIUM task due in 30 hours and a LOW task due in 24 hours.\<close>

definition taskU :: Task where
  "taskU = mkTask ''U'' MEDIUM (now0 + 108000000) False"

definition taskV :: Task where
  "taskV = mkTask ''V'' LOW (now0 + 86400000) False"

text \<open>
  Clocks that advance by one and by two milliseconds from one reading to the next, and a
  clock whose first two readings are \<open>now0\<close> and whose later readings are one
  millisecond on.
\<close>

definition ticking :: clock where
  "ticking k = now0 + int k"

definition stepping :: clock where
  "stepping k = now0 + 2 * int k"

definition msLater :: clock where
  "msLater k = (if k < 2 then now0 else now0 + 1)"

definition store0 :: store where
  "store0 = \<lparr> arrays = (\<lambda>r. [])(0 := [taskC, taskB, taskA]), fresh = 1 \<rparr>"

section \<open>Rounding to binary64\<close>

lemma round_even_of_int: "round_even (of_int n) = n"
  by (simp add: round_even_def)

lemma round_even_cases:
  "round_even r = \<lfloor>r\<rfloor> \<or> round_even r = \<lfloor>r\<rfloor> + 1"
  by (simp add: round_even_def Let_def)

lemma round_even_ge_floor: "\<lfloor>r\<rfloor> \<le> round_even r"
  using round_even_cases[of r] by auto

lemma round_even_le_ceiling: "round_even r \<le> \<lceil>r\<rceil>"
proof (cases "r = of_int \<lfloor>r\<rfloor>")
  case True
  then have "round_even r = round_even (of_int \<lfloor>r\<rfloor>)" by simp
  also have "\<dots> = \<lfloor>r\<rfloor>" by (rule round_even_of_int)
  finally show ?thesis by (simp add: floor_le_ceiling)
next
  case False
  then have "\<lceil>r\<rceil> = \<lfloor>r\<rfloor> + 1" by (simp add: ceiling_altdef)
  then show ?thesis using round_even_cases[of r] by auto
qed

lemma pow2_less_imp: "(2::rat) powi a < 2 powi b \<Longrightarrow> a < b"
proof (rule ccontr)
  assume l: "(2::rat) powi a < 2 powi b" and "\<not> a < b"
  then have "b \<le> a" by simp
  then have "(2::rat) powi b \<le> 2 powi a" by (rule power_int_increasing) simp
  with l show False by simp
qed

lemma pow2_nat: "0 \<le> k \<Longrightarrow> (2::rat) powi k = of_int (2 ^ nat k)"
  by (simp add: power_int_def)

lemma pow2_neg: "0 \<le> k \<Longrightarrow> (2::rat) powi (- k) = 1 / of_int (2 ^ nat k)"
  by (simp add: power_int_minus power_int_def field_simps)

lemma round_even_mono: "r \<le> s \<Longrightarrow> round_even r \<le> round_even s"
proof -
  assume rs: "r \<le> s"
  then have fl: "\<lfloor>r\<rfloor> \<le> \<lfloor>s\<rfloor>" by (rule floor_mono)
  show ?thesis
  proof (cases "\<lfloor>r\<rfloor> = \<lfloor>s\<rfloor>")
    case True
    then have "r - of_int \<lfloor>r\<rfloor> \<le> s - of_int \<lfloor>s\<rfloor>" using rs by simp
    then show ?thesis using True by (auto simp add: round_even_def Let_def)
  next
    case False
    then have "\<lfloor>r\<rfloor> + 1 \<le> \<lfloor>s\<rfloor>" using fl by simp
    moreover have "round_even r \<le> \<lfloor>r\<rfloor> + 1" using round_even_cases[of r] by auto
    ultimately show ?thesis using round_even_ge_floor[of s] by linarith
  qed
qed

lemma ilog2_bounds:
  assumes "0 < x"
  shows "2 powi (ilog2 x) \<le> x \<and> x < 2 powi (ilog2 x + 1)"
proof (cases "1 \<le> x")
  case True
  let ?n = "\<lfloor>x\<rfloor>"
  have n: "0 < ?n" using True by simp
  have b: "1 \<le> bitlen ?n" using n bitlen_eq_zero_iff[of ?n] bitlen_nonneg[of ?n] by linarith
  from bitlen_bounds[OF n] have lo: "2 ^ nat (bitlen ?n - 1) \<le> ?n" and hi: "?n < 2 ^ nat (bitlen ?n)"
    by simp_all
  have e: "ilog2 x = bitlen ?n - 1" using True by (simp add: ilog2_def)
  have "of_int (2 ^ nat (bitlen ?n - 1)) \<le> x" using lo by (simp only: le_floor_iff)
  then have 1: "2 powi (ilog2 x) \<le> x" using b by (simp only: e pow2_nat)
  have "x < of_int (2 ^ nat (bitlen ?n))" using hi by (simp only: floor_less_iff)
  moreover have "ilog2 x + 1 = bitlen ?n" using e by simp
  ultimately have 2: "x < 2 powi (ilog2 x + 1)" using b by (simp only: pow2_nat)
  from 1 2 show ?thesis ..
next
  case False
  let ?y = "1 / x"
  let ?c = "\<lceil>?y\<rceil> - 1"
  have y: "1 < ?y" using False assms by simp
  then have c: "0 < ?c" by simp
  let ?k = "bitlen ?c"
  have k: "1 \<le> ?k" using c bitlen_eq_zero_iff[of ?c] bitlen_nonneg[of ?c] by linarith
  from bitlen_bounds[OF c] have lo: "2 ^ nat (?k - 1) \<le> ?c" and hi: "?c < 2 ^ nat ?k"
    by simp_all
  have e: "ilog2 x = - ?k" using False by (simp add: ilog2_def)
  have p1: "(0::rat) < of_int (2 ^ nat ?k)" by simp
  have p2: "(0::rat) < of_int (2 ^ nat (?k - 1))" by simp
  have "\<lceil>?y\<rceil> \<le> 2 ^ nat ?k" using hi by simp
  then have "?y \<le> of_int (2 ^ nat ?k)" by (simp only: ceiling_le_iff)
  then have "1 / of_int (2 ^ nat ?k) \<le> x" using assms p1 by (simp add: field_simps)
  then have 1: "2 powi (ilog2 x) \<le> x" using k by (simp only: e pow2_neg)
  have "2 ^ nat (?k - 1) < \<lceil>?y\<rceil>" using lo by simp
  then have "of_int (2 ^ nat (?k - 1)) < ?y" by (simp only: less_ceiling_iff)
  then have "x < 1 / of_int (2 ^ nat (?k - 1))" using assms p2 by (simp add: field_simps)
  moreover have "ilog2 x + 1 = - (?k - 1)" using e by simp
  ultimately have 2: "x < 2 powi (ilog2 x + 1)" using k by (simp only: pow2_neg)
  from 1 2 show ?thesis ..
qed

lemma ilog2_unique:
  assumes "0 < x" and "2 powi e \<le> x" and "x < 2 powi (e + 1)"
  shows "ilog2 x = e"
proof -
  from ilog2_bounds[OF assms(1)]
  have lo: "2 powi (ilog2 x) \<le> x" and hi: "x < 2 powi (ilog2 x + 1)" by simp_all
  have "(2::rat) powi e < 2 powi (ilog2 x + 1)" using assms(2) hi by simp
  then have a: "e < ilog2 x + 1" by (rule pow2_less_imp)
  have "(2::rat) powi (ilog2 x) < 2 powi (e + 1)" using lo assms(3) by simp
  then have b: "ilog2 x < e + 1" by (rule pow2_less_imp)
  from a b show ?thesis by simp
qed

lemma ilog2_mono: "0 < x \<Longrightarrow> x \<le> y \<Longrightarrow> ilog2 x \<le> ilog2 y"
proof -
  assume x: "0 < x" and xy: "x \<le> y"
  then have y: "0 < y" by simp
  have "(2::rat) powi (ilog2 x) \<le> x" using ilog2_bounds[OF x] by simp
  also have "x \<le> y" by (rule xy)
  also have "y < 2 powi (ilog2 y + 1)" using ilog2_bounds[OF y] by simp
  finally have "ilog2 x < ilog2 y + 1" by (rule pow2_less_imp)
  then show ?thesis by simp
qed

lemma pow2_le_imp: "(2::rat) powi a \<le> 2 powi b \<Longrightarrow> a \<le> b"
proof (rule ccontr)
  assume l: "(2::rat) powi a \<le> 2 powi b" and "\<not> a \<le> b"
  then have "b < a" by simp
  then have "(2::rat) powi b < 2 powi a" by (rule power_int_strict_increasing) simp
  with l show False by simp
qed

lemma pow2_pos: "(0::rat) < 2 powi e"
  by simp

lemma pow2_split: "(2::rat) powi e = 2 powi 52 * 2 powi (e - 52)"
proof -
  have "(2::rat) powi (52 + (e - 52)) = 2 powi 52 * 2 powi (e - 52)"
    by (rule power_int_add) simp
  then show ?thesis by simp
qed

lemma pow2_split1: "(2::rat) powi (e + 1) = 2 powi 53 * 2 powi (e - 52)"
proof -
  have "(2::rat) powi (53 + (e - 52)) = 2 powi 53 * 2 powi (e - 52)"
    by (rule power_int_add) simp
  moreover have "53 + (e - 52) = e + 1" by simp
  ultimately show ?thesis by (simp only:)
qed

text \<open>The scaled significand of a positive number lies in [2^52, 2^53).\<close>

lemma significand_bounds:
  assumes "0 < x"
  shows "2 powi 52 \<le> x / 2 powi (ilog2 x - 52) \<and> x / 2 powi (ilog2 x - 52) < 2 powi 53"
proof -
  let ?q = "(2::rat) powi (ilog2 x - 52)"
  have q: "0 < ?q" by simp
  from ilog2_bounds[OF assms]
  have lo: "2 powi 52 * ?q \<le> x" and hi: "x < 2 powi 53 * ?q"
    using pow2_split[of "ilog2 x"] pow2_split1[of "ilog2 x"] by simp_all
  from lo q have 1: "2 powi 52 \<le> x / ?q" by (simp add: le_divide_eq)
  from hi q have 2: "x / ?q < 2 powi 53" by (simp add: divide_less_eq)
  from 1 2 show ?thesis ..
qed

lemma fl_pos_eq:
  "0 < x \<Longrightarrow> fl x = of_int (round_even (x / 2 powi (ilog2 x - 52))) * 2 powi (ilog2 x - 52)"
  by (simp add: fl_def Let_def)

lemma fl_neg: "fl (- x) = - fl x"
  by (simp add: fl_def Let_def sgn_minus)

lemma fl_zero: "fl 0 = 0"
  by (simp add: fl_def)

lemma round_significand:
  assumes "0 < x"
  shows "2 ^ 52 \<le> round_even (x / 2 powi (ilog2 x - 52))
       \<and> round_even (x / 2 powi (ilog2 x - 52)) \<le> 2 ^ 53"
proof -
  let ?r = "x / 2 powi (ilog2 x - 52)"
  from significand_bounds[OF assms] have lo: "of_int (2 ^ 52) \<le> ?r" and hi: "?r \<le> of_int (2 ^ 53)"
    by simp_all
  from round_even_mono[OF lo] have 1: "2 ^ 52 \<le> round_even ?r" by (simp only: round_even_of_int)
  from round_even_mono[OF hi] have 2: "round_even ?r \<le> 2 ^ 53" by (simp only: round_even_of_int)
  from 1 2 show ?thesis ..
qed

lemma fl_pos_bounds:
  assumes "0 < x"
  shows "2 powi (ilog2 x) \<le> fl x \<and> fl x \<le> 2 powi (ilog2 x + 1)"
proof -
  let ?q = "(2::rat) powi (ilog2 x - 52)"
  let ?n = "round_even (x / ?q)"
  have q: "0 < ?q" by simp
  from round_significand[OF assms] have "2 ^ 52 \<le> ?n" and "?n \<le> 2 ^ 53" by simp_all
  then have lo: "(2::rat) powi 52 \<le> of_int ?n" and hi: "(of_int ?n :: rat) \<le> 2 powi 53"
    by (simp_all add: of_int_le_iff[symmetric] del: of_int_le_iff)
  have "2 powi 52 * ?q \<le> of_int ?n * ?q" using lo q by (simp only: mult_le_cancel_right_pos)
  moreover have "of_int ?n * ?q \<le> 2 powi 53 * ?q" using hi q by (simp only: mult_le_cancel_right_pos)
  ultimately show ?thesis
    using pow2_split[of "ilog2 x"] pow2_split1[of "ilog2 x"] fl_pos_eq[OF assms] by simp
qed

lemma fl_pos: "0 < x \<Longrightarrow> 0 < fl x"
proof -
  assume x: "0 < x"
  have "(0::rat) < 2 powi (ilog2 x)" by simp
  also have "\<dots> \<le> fl x" using fl_pos_bounds[OF x] by simp
  finally show ?thesis .
qed

lemma fl_mono_pos:
  assumes "0 < x" and "x \<le> y"
  shows "fl x \<le> fl y"
proof -
  have y: "0 < y" using assms by simp
  have le: "ilog2 x \<le> ilog2 y" using assms by (rule ilog2_mono)
  show ?thesis
  proof (cases "ilog2 x = ilog2 y")
    case True
    let ?q = "(2::rat) powi (ilog2 y - 52)"
    have q: "0 < ?q" by simp
    have "x / ?q \<le> y / ?q" using assms(2) q by (simp add: divide_right_mono)
    then have "round_even (x / ?q) \<le> round_even (y / ?q)" by (rule round_even_mono)
    then have "(of_int (round_even (x / ?q)) :: rat) \<le> of_int (round_even (y / ?q))"
      by (simp only: of_int_le_iff)
    then have "of_int (round_even (x / ?q)) * ?q \<le> of_int (round_even (y / ?q)) * ?q"
      using q by (simp only: mult_le_cancel_right_pos)
    then show ?thesis using True fl_pos_eq[OF assms(1)] fl_pos_eq[OF y] by simp
  next
    case False
    then have "ilog2 x + 1 \<le> ilog2 y" using le by simp
    then have "(2::rat) powi (ilog2 x + 1) \<le> 2 powi (ilog2 y)"
      by (rule power_int_increasing) simp
    moreover have "fl x \<le> 2 powi (ilog2 x + 1)" using fl_pos_bounds[OF assms(1)] by simp
    moreover have "2 powi (ilog2 y) \<le> fl y" using fl_pos_bounds[OF y] by simp
    ultimately show ?thesis by linarith
  qed
qed

lemma fl_mono: "x \<le> y \<Longrightarrow> fl x \<le> fl y"
proof -
  assume xy: "x \<le> y"
  consider "0 < x" | "x \<le> 0" "0 \<le> y" | "y < 0" by linarith
  then show ?thesis
  proof cases
    case 1
    then show ?thesis using xy by (rule fl_mono_pos)
  next
    case 2
    have "fl x \<le> 0"
    proof (cases "x = 0")
      case True then show ?thesis by (simp add: fl_zero)
    next
      case False
      then have "0 < - x" using 2 by simp
      then have "0 < fl (- x)" by (rule fl_pos)
      then show ?thesis by (simp add: fl_neg)
    qed
    moreover have "0 \<le> fl y"
    proof (cases "y = 0")
      case True then show ?thesis by (simp add: fl_zero)
    next
      case False
      then have "0 < y" using 2 by simp
      then have "0 < fl y" by (rule fl_pos)
      then show ?thesis by simp
    qed
    ultimately show ?thesis by simp
  next
    case 3
    then have "0 < - y" and "- y \<le> - x" using xy by simp_all
    then have "fl (- y) \<le> fl (- x)" by (rule fl_mono_pos)
    then show ?thesis by (simp add: fl_neg)
  qed
qed

lemma fl_less_zero: "fl x < 0 \<longleftrightarrow> x < 0"
proof
  assume "fl x < 0"
  show "x < 0"
  proof (rule ccontr)
    assume "\<not> x < 0"
    then have "0 \<le> x" by simp
    then have "fl 0 \<le> fl x" by (rule fl_mono)
    with \<open>fl x < 0\<close> show False by (simp add: fl_zero)
  qed
next
  assume "x < 0"
  then have "0 < - x" by simp
  then have "0 < fl (- x)" by (rule fl_pos)
  then show "fl x < 0" by (simp add: fl_neg)
qed

lemma fl_of_int_pos:
  assumes "0 < n" and "n \<le> 2 ^ 53"
  shows "fl (of_int n) = of_int n"
proof -
  let ?x = "of_int n :: rat"
  let ?e = "ilog2 ?x"
  have x: "0 < ?x" using assms by simp
  from ilog2_bounds[OF x] have lo: "2 powi ?e \<le> ?x" and hi: "?x < 2 powi (?e + 1)" by simp_all
  have "?x \<le> of_int (2 ^ 53)" using assms(2) by (simp only: of_int_le_iff)
  then have x53: "?x \<le> 2 powi 53" by simp
  have e53: "?e \<le> 53" using lo x53 by (intro pow2_le_imp) simp
  have "(1::rat) \<le> ?x" using assms(1) by simp
  then have "(2::rat) powi 0 < 2 powi (?e + 1)" using hi by simp
  then have e0: "0 \<le> ?e" using pow2_less_imp[of 0 "?e + 1"] by simp
  show ?thesis
  proof (cases "?e = 53")
    case True
    then have "2 powi 53 \<le> ?x" using lo by simp
    then have eq: "?x = 2 powi 53" using x53 by simp
    have "?x / 2 powi (?e - 52) = of_int (2 ^ 52)" using True eq by simp
    then have "round_even (?x / 2 powi (?e - 52)) = 2 ^ 52" by (simp only: round_even_of_int)
    then show ?thesis using fl_pos_eq[OF x] True eq by simp
  next
    case False
    then have le: "0 \<le> 52 - ?e" using e53 by simp
    have q: "(2::rat) powi (?e - 52) = 1 / of_int (2 ^ nat (52 - ?e))"
      using pow2_neg[OF le] by simp
    then have "?x / 2 powi (?e - 52) = of_int (n * 2 ^ nat (52 - ?e))" by simp
    then have "round_even (?x / 2 powi (?e - 52)) = n * 2 ^ nat (52 - ?e)"
      by (simp only: round_even_of_int)
    then show ?thesis using fl_pos_eq[OF x] q by simp
  qed
qed

lemma fl_of_int: "\<bar>n\<bar> \<le> 2 ^ 53 \<Longrightarrow> fl (of_int n) = of_int n"
proof -
  assume a: "\<bar>n\<bar> \<le> 2 ^ 53"
  consider "0 < n" | "n = 0" | "n < 0" by linarith
  then show ?thesis
  proof cases
    case 1 then show ?thesis using a by (simp add: fl_of_int_pos)
  next
    case 2 then show ?thesis by (simp add: fl_zero)
  next
    case 3
    then have "fl (of_int (- n)) = of_int (- n)" using a by (intro fl_of_int_pos) simp_all
    then show ?thesis by (simp add: fl_neg)
  qed
qed

lemma round_even_near:
  assumes "\<bar>r - of_int n\<bar> < 1 / 2"
  shows "round_even r = n"
proof -
  have a: "r - of_int n < 1 / 2 \<and> - (r - of_int n) < 1 / 2"
    using assms unfolding abs_less_iff .
  have lo: "of_int n - 1 / 2 < r" using a by linarith
  have hi: "r < of_int n + 1 / 2" using a by linarith
  show ?thesis
  proof (cases "of_int n \<le> r")
    case True
    have "r < of_int n + 1" using hi by linarith
    with True have "\<lfloor>r\<rfloor> = n" by (intro floor_unique)
    moreover have "r - of_int n < 1 / 2" using hi by linarith
    ultimately show ?thesis by (simp add: round_even_def)
  next
    case False
    have "of_int (n - 1) \<le> r" using lo by simp
    moreover have "r < of_int (n - 1) + 1" using False by simp
    ultimately have f: "\<lfloor>r\<rfloor> = n - 1" by (intro floor_unique)
    have "1 / 2 < r - of_int (n - 1)" using lo by simp
    then have "\<not> r - of_int (n - 1) < 1 / 2" by linarith
    then show ?thesis using f \<open>1 / 2 < r - of_int (n - 1)\<close> by (simp add: round_even_def)
  qed
qed

text \<open>
  Evaluating \<open>fl\<close> at a given number: name the exponent and the rounded significand,
  and check that the number lies in that binade, less than half a quantum from the value.
\<close>

lemma fl_near:
  assumes "2 powi e \<le> x" and "x < 2 powi (e + 1)"
    and "\<bar>x / 2 powi (e - 52) - of_int n\<bar> < 1 / 2"
  shows "fl x = of_int n * 2 powi (e - 52)"
proof -
  have "(0::rat) < 2 powi e" by simp
  then have x: "0 < x" using assms(1) by (rule less_le_trans)
  have e: "ilog2 x = e" using x assms(1,2) by (rule ilog2_unique)
  have "round_even (x / 2 powi (e - 52)) = n" using assms(3) by (rule round_even_near)
  then show ?thesis using fl_pos_eq[OF x] e by simp
qed

section \<open>Auxiliary facts about the program\<close>

lemma fl_numeral: "numeral k \<le> (9007199254740992::int) \<Longrightarrow> fl (numeral k) = numeral k"
  using fl_of_int[of "numeral k"] by simp

lemma fl_neg_numeral:
  "numeral k \<le> (9007199254740992::int) \<Longrightarrow> fl (- numeral k) = - numeral k"
  using fl_of_int[of "- numeral k"] by simp

lemma fl_one: "fl 1 = 1"
  using fl_of_int[of 1] by simp

lemma fl_Ints_small:
  assumes "x \<in> \<int>" and "\<bar>x\<bar> \<le> 9007199254740992"
  shows "fl x = x"
proof -
  from assms(1) obtain n :: int where n: "x = of_int n" by (auto elim: Ints_cases)
  then have "\<bar>of_int n :: rat\<bar> \<le> of_int 9007199254740992" using assms(2) by simp
  then have "\<bar>n\<bar> \<le> 9007199254740992" by (simp only: of_int_abs[symmetric] of_int_le_iff)
  then show ?thesis using n fl_of_int[of n] by simp
qed

lemma weights_base: "PRIORITY_WEIGHTS p = spec_base p"
  by (cases p) (simp_all add: spec_base_def)

lemma fl_base_bonus: "fl (spec_base p + c) = spec_base p + c"
  if "c = 1000 \<or> c = 500 \<or> c = 200 \<or> c = 50"
  using that by (cases p) (auto simp add: spec_base_def fl_numeral)

lemma score_unfold:
  "calculateTaskScore clk task k =
     (spec_score (clk k) task, if completed task then k else Suc k)"
  by (simp add: calculateTaskScore_def hoursUntilDeadline_def newDate_def spec_score_def
      spec_bonus_def spec_hoursRemaining_def weights_base fl_base_bonus Let_def)

lemma scoreAt_spec: "scoreAt now task = spec_score now task"
  by (simp add: scoreAt_def score_unfold frozen_def)

lemma spec_score_open_lower:
  assumes "\<not> completed task"
  shows "- 990 \<le> spec_score now task"
proof -
  let ?h = "spec_hoursRemaining now task"
  have "- 990 \<le> spec_base (priority task) + spec_bonus ?h - min ?h 1000"
    by (cases "priority task") (simp_all add: spec_bonus_def spec_base_def min_def)
  then have "fl (- 990) \<le> fl (spec_base (priority task) + spec_bonus ?h - min ?h 1000)"
    by (rule fl_mono)
  then show ?thesis using assms by (simp add: spec_score_def fl_neg_numeral)
qed

lemma key_le_precedes: "taskKey now a \<le> taskKey now b \<longleftrightarrow> spec_precedes now a b"
  by (auto simp add: taskKey_def spec_precedes_def scoreAt_spec)

lemma key_eq_tied: "taskKey now b = taskKey now a \<longleftrightarrow> spec_tied now a b"
  by (auto simp add: taskKey_def spec_tied_def scoreAt_spec)

lemma spec_precedes_total: "spec_precedes now a b \<or> spec_precedes now b a"
  unfolding key_le_precedes[symmetric] by (rule linear)

lemma spec_precedes_trans:
  "spec_precedes now a b \<Longrightarrow> spec_precedes now b c \<Longrightarrow> spec_precedes now a c"
  unfolding key_le_precedes[symmetric] by (rule order_trans)

lemma compare_reads:
  "snd (compareTasks clk a b k) = (if \<not> completed a \<and> \<not> completed b then k + 2 else k)"
  by (simp add: compareTasks_def score_unfold Let_def)

text \<open>The sign of the comparator's value, in terms of the two scores it computed.\<close>

lemma compare_negative:
  "fst (compareTasks clk a b k) < 0 \<longleftrightarrow>
     (if completed a \<and> \<not> completed b then False
      else if \<not> completed a \<and> completed b then True
      else let sa = spec_score (clk k) a;
               sb = spec_score (clk (if completed a then k else Suc k)) b
           in if sa \<noteq> sb then sb < sa else deadline a < deadline b)"
proof -
  have d: "fl (of_int (deadline a) - of_int (deadline b)) < 0 \<longleftrightarrow> deadline a < deadline b"
    by (simp add: fl_less_zero)
  show ?thesis
    by (simp add: compareTasks_def score_unfold Let_def fl_less_zero d)
qed

lemma compare_still:
  assumes "\<forall>i\<ge>k. clk i = now"
  shows "(fst (compareTasks clk a b k) < 0 \<longleftrightarrow> taskKey now a < taskKey now b)
         \<and> k \<le> snd (compareTasks clk a b k)"
proof -
  have a: "clk k = now" using assms by simp
  have b: "clk (Suc k) = now" using assms by simp
  have "fst (compareTasks clk a b k) < 0 \<longleftrightarrow> taskKey now a < taskKey now b"
    unfolding compare_negative by (auto simp add: taskKey_def a b Let_def)
  then show ?thesis by (simp add: compare_reads)
qed

lemma insert_still:
  "\<forall>i\<ge>k. clk i = now \<Longrightarrow>
   fst (array_insert (compareTasks clk) x ys k) = insort_key (taskKey now) x ys
   \<and> k \<le> snd (array_insert (compareTasks clk) x ys k)"
proof (induction ys arbitrary: k)
  case Nil
  then show ?case by simp
next
  case (Cons y ys)
  obtain v k' where c: "compareTasks clk y x k = (v, k')"
    by (cases "compareTasks clk y x k")
  from compare_still[OF Cons.prems, of y x] c
  have v: "v < 0 \<longleftrightarrow> taskKey now y < taskKey now x" and k: "k \<le> k'" by simp_all
  have "\<forall>i\<ge>k'. clk i = now" using Cons.prems k by simp
  from Cons.IH[OF this] show ?case using c v k
    by (auto simp add: split_beta)
qed

lemma sort_still:
  "\<forall>i\<ge>k. clk i = now \<Longrightarrow>
   fst (array_sort (compareTasks clk) xs k) = sort_key (taskKey now) xs
   \<and> k \<le> snd (array_sort (compareTasks clk) xs k)"
proof (induction xs)
  case Nil
  then show ?case by simp
next
  case (Cons x xs)
  obtain ys k' where s: "array_sort (compareTasks clk) xs k = (ys, k')"
    by (cases "array_sort (compareTasks clk) xs k")
  from Cons.IH[OF Cons.prems] s
  have ys: "ys = sort_key (taskKey now) xs" and k: "k \<le> k'" by simp_all
  have "\<forall>i\<ge>k'. clk i = now" using Cons.prems k by simp
  from insert_still[OF this, of x ys] show ?case using s ys k by simp
qed

lemma mset_array_insert: "mset (fst (array_insert cmp x ys k)) = add_mset x (mset ys)"
  by (induction ys arbitrary: k) (auto simp add: split_beta Let_def)

lemma mset_array_sort: "mset (fst (array_sort cmp xs k)) = mset xs"
  by (induction xs arbitrary: k) (auto simp add: split_beta mset_array_insert)

text \<open>Integer scores.\<close>

lemma base_bonus_Ints: "spec_base p + spec_bonus h \<in> \<int>"
  by (cases p) (simp_all add: spec_base_def spec_bonus_def)

lemma base_bonus_bounds: "10 \<le> spec_base p + spec_bonus h \<and> spec_base p + spec_bonus h \<le> 1100"
  by (cases p) (simp_all add: spec_base_def spec_bonus_def)

lemma spec_score_far:
  assumes "\<not> completed task" and "3600000000 \<le> deadline task - now"
  shows "spec_score now task = spec_base (priority task) - 1000"
proof -
  let ?m = "of_int (deadline task) - of_int now :: rat"
  have "of_int 3600000000 \<le> (of_int (deadline task - now) :: rat)"
    using assms(2) by (simp only: of_int_le_iff)
  then have "3600000000 \<le> ?m" by simp
  then have "fl 3600000000 \<le> fl ?m" by (rule fl_mono)
  then have "3600000000 \<le> fl ?m" by (simp add: fl_numeral)
  then have "1000 \<le> fl ?m / 3600000" by simp
  then have "fl 1000 \<le> fl (fl ?m / 3600000)" by (rule fl_mono)
  then have h: "1000 \<le> spec_hoursRemaining now task"
    by (simp add: fl_numeral spec_hoursRemaining_def)
  then have b: "spec_bonus (spec_hoursRemaining now task) = 0" by (simp add: spec_bonus_def)
  have m: "min (spec_hoursRemaining now task) 1000 = 1000" using h by (simp add: min_def)
  have "fl (spec_base (priority task) - 1000) = spec_base (priority task) - 1000"
    by (cases "priority task") (simp_all add: spec_base_def fl_neg_numeral)
  then show ?thesis using assms(1) by (simp add: spec_score_def b m)
qed

lemma spec_score_whole_hours:
  assumes "\<not> completed task" and "deadline task - now = 3600000 * j"
    and "\<bar>deadline task - now\<bar> \<le> 9007199254740992"
  shows "spec_score now task \<in> \<int>"
proof -
  let ?m = "deadline task - now"
  have "fl (of_int (deadline task) - of_int now) = fl (of_int ?m)" by simp
  also have "\<dots> = of_int ?m" using assms(3) by (intro fl_of_int) simp
  finally have m: "fl (of_int (deadline task) - of_int now) = of_int (3600000 * j)"
    using assms(2) by simp
  have b1: "3600000 * j \<le> 9007199254740992" and b2: "- 9007199254740992 \<le> 3600000 * j"
    using assms(3) unfolding assms(2) by (simp_all add: abs_le_iff)
  have j1: "j \<le> 2501999793" using b1 by linarith
  have j2: "- 2501999793 \<le> j" using b2 by linarith
  have jb: "\<bar>j\<bar> \<le> 2 ^ 53" using j1 j2 by simp
  have "spec_hoursRemaining now task = fl (of_int j)"
    by (simp add: spec_hoursRemaining_def m)
  also have "\<dots> = of_int j" using jb by (rule fl_of_int)
  finally have h: "spec_hoursRemaining now task = of_int j" .
  let ?z = "spec_base (priority task) + spec_bonus (of_int j) - min (of_int j) 1000"
  have mi: "min (of_int j :: rat) 1000 \<in> \<int>" by (simp add: min_def)
  have zi: "?z \<in> \<int>" using base_bonus_Ints mi by (rule Ints_diff)
  have r1: "(of_int j :: rat) \<le> of_int 2501999793" using j1 by (simp only: of_int_le_iff)
  have r2: "(of_int (- 2501999793) :: rat) \<le> of_int j" using j2 by (simp only: of_int_le_iff)
  have lo: "- 2501999793 \<le> min (of_int j :: rat) 1000" using r2 by (simp add: min_def)
  have hi: "min (of_int j :: rat) 1000 \<le> 1000" by simp
  have "- 9007199254740992 \<le> ?z \<and> ?z \<le> 9007199254740992"
    using base_bonus_bounds[of "priority task" "of_int j"] lo hi by linarith
  then have "\<bar>?z\<bar> \<le> 9007199254740992" by (simp add: abs_le_iff)
  with zi have "fl ?z = ?z" by (rule fl_Ints_small)
  then show ?thesis using assms(1) zi by (simp add: spec_score_def h)
qed

subsection \<open>Values of the rounding at the example data\<close>

lemma fl_value_1: "fl (1 / 3600000) = 5247073869855161 / 18889465931478580854784"
  using fl_near[of "- 22" "1 / 3600000" 5247073869855161] by simp

lemma fl_value_2: "fl (1 / 2) = 1 / 2"
  using fl_near[of "- 1" "1 / 2" 4503599627370496] by simp

lemma fl_value_3: "fl (1407374922647027 / 140737488355328) = 1407374922647027 / 140737488355328"
  using fl_near[of "3" "1407374922647027 / 140737488355328" 5629499690588108] by simp

lemma fl_value_4: "fl (703687480870387 / 70368744177664) = 703687480870387 / 70368744177664"
  using fl_near[of "3" "703687480870387 / 70368744177664" 5629499846963096] by simp

lemma fl_value_5: "fl (175921875104315 / 17592186044416) = 175921875104315 / 17592186044416"
  using fl_near[of "3" "175921875104315 / 17592186044416" 5629500003338080] by simp

lemma fl_value_6: "fl (86399999 / 3600000) = 3377699681434125 / 140737488355328"
  using fl_near[of "4" "86399999 / 3600000" 6755399362868250] by simp

lemma fl_value_7: "fl (107999999 / 3600000) = 4222124611566093 / 140737488355328"
  using fl_near[of "4" "107999999 / 3600000" 8444249223132186] by simp

lemma fl_value_8: "fl (59999999 / 1200000) = 879609287560645 / 17592186044416"
  using fl_near[of "5" "59999999 / 1200000" 7036874300485160] by simp

lemma fl_value_9: "fl (89999999 / 1800000) = 3518437169789453 / 70368744177664"
  using fl_near[of "5" "89999999 / 1800000" 7036874339578906] by simp

lemma fl_value_10: "fl (7036874378672653 / 140737488355328) = 7036874378672653 / 140737488355328"
  using fl_near[of "5" "7036874378672653 / 140737488355328" 7036874378672653] by simp

lemma fl_value_11: "fl (179999999 / 3600000) = 7036874378672653 / 140737488355328"
  using fl_near[of "5" "179999999 / 3600000" 7036874378672653] by simp

lemma fl_value_12: "fl (3518437189336327 / 70368744177664) = 3518437189336327 / 70368744177664"
  using fl_near[of "5" "3518437189336327 / 70368744177664" 7036874378672654] by simp

lemma fl_value_13: "fl (180000001 / 3600000) = 7036874456860147 / 140737488355328"
  using fl_near[of "5" "180000001 / 3600000" 7036874456860147] by simp

lemma fl_value_14: "fl (7036874456860147 / 140737488355328) = 7036874456860147 / 140737488355328"
  using fl_near[of "5" "7036874456860147 / 140737488355328" 7036874456860147] by simp

lemma fl_value_15: "fl (360000001 / 3600000) = 7036874437313273 / 70368744177664"
  using fl_near[of "6" "360000001 / 3600000" 7036874437313273] by simp

lemma fl_value_16: "fl (30962247477265907 / 140737488355328) = 7740561869316477 / 35184372088832"
  using fl_near[of "7" "30962247477265907 / 140737488355328" 7740561869316477] by simp

lemma fl_value_17: "fl (68398419379783155 / 140737488355328) = 4274901211236447 / 8796093022208"
  using fl_near[of "8" "68398419379783155 / 140737488355328" 8549802422472894] by simp

lemma fl_value_18: "fl (1199 / 2) = 1199 / 2"
  using fl_near[of "9" "1199 / 2" 5273257766813696] by simp

lemma fl_value_19: "fl (20778412529873512810117561 / 18889465931478580854784) = 302365697714755 / 274877906944"
  using fl_near[of "10" "20778412529873512810117561 / 18889465931478580854784" 4837851163436080] by simp

lemmas fl_values =
  fl_value_1 fl_value_2 fl_value_3 fl_value_4 fl_value_5 fl_value_6
  fl_value_7 fl_value_8 fl_value_9 fl_value_10 fl_value_11 fl_value_12
  fl_value_13 fl_value_14 fl_value_15 fl_value_16 fl_value_17 fl_value_18
  fl_value_19

lemmas score_defs =
  spec_score_def spec_hoursRemaining_def spec_bonus_def spec_base_def mkTask_def now0_def
  fl_numeral fl_neg_numeral fl_neg fl_zero fl_one fl_values

subsection \<open>Scores of the example tasks\<close>

lemma score_A_0: "spec_score now0 taskA = 1101"
  by (simp add: taskA_def score_defs)

lemma score_B_0: "spec_score now0 taskB = 50"
  by (simp add: taskB_def score_defs)

lemma score_B_1: "spec_score (now0 + 1) taskB = 7036874456860147 / 140737488355328"
  by (simp add: taskB_def score_defs)

lemma score_H_0: "spec_score now0 taskH = 1199 / 2"
  by (simp add: taskH_def score_defs)

lemma score_L_0: "spec_score now0 taskL = 302365697714755 / 274877906944"
  by (simp add: taskL_def score_defs)

lemma score_HX_0: "spec_score now0 taskHX = 3518437189336327 / 70368744177664"
  by (simp add: taskHX_def score_defs)

lemma score_MX_0: "spec_score now0 taskMX = 7036874378672653 / 140737488355328"
  by (simp add: taskMX_def score_defs)

lemma score_X_0: "spec_score now0 taskX = 10"
  by (simp add: taskX_def score_defs)

lemma score_Y_0: "spec_score now0 taskY = 1407374922647027 / 140737488355328"
  by (simp add: taskY_def score_defs)

lemma score_X_2: "spec_score (now0 + 2) taskX = 703687480870387 / 70368744177664"
  by (simp add: taskX_def score_defs)

lemma score_Y_2: "spec_score (now0 + 2) taskY = 175921875104315 / 17592186044416"
  by (simp add: taskY_def score_defs)

lemma score_U_0: "spec_score now0 taskU = 220"
  by (simp add: taskU_def score_defs)

lemma score_V_0: "spec_score now0 taskV = 186"
  by (simp add: taskV_def score_defs)

lemma score_U_1: "spec_score (now0 + 1) taskU = 7740561869316477 / 35184372088832"
  by (simp add: taskU_def score_defs)

lemma score_V_1: "spec_score (now0 + 1) taskV = 4274901211236447 / 8796093022208"
  by (simp add: taskV_def score_defs)

lemmas example_scores =
  score_A_0 score_B_0 score_B_1 score_H_0 score_L_0
  score_HX_0 score_MX_0 score_X_0 score_Y_0 score_X_2
  score_Y_2 score_U_0 score_V_0 score_U_1 score_V_1

subsection \<open>Fields of the example tasks\<close>

lemma fields_A: "completed taskA = False" "deadline taskA = now0 - 3600000"
  by (simp_all add: taskA_def mkTask_def)

lemma fields_B: "completed taskB = False" "deadline taskB = now0 + 180000000"
  by (simp_all add: taskB_def mkTask_def)

lemma fields_H: "completed taskH = False" "deadline taskH = now0 + 1800000"
  by (simp_all add: taskH_def mkTask_def)

lemma fields_L: "completed taskL = False" "deadline taskL = now0 - 1"
  by (simp_all add: taskL_def mkTask_def)

lemma fields_HX: "completed taskHX = False" "deadline taskHX = now0 + 360000001"
  by (simp_all add: taskHX_def mkTask_def)

lemma fields_MX: "completed taskMX = False" "deadline taskMX = now0 + 180000001"
  by (simp_all add: taskMX_def mkTask_def)

lemma fields_X: "completed taskX = False" "deadline taskX = now0 + 180000000"
  by (simp_all add: taskX_def mkTask_def)

lemma fields_Y: "completed taskY = False" "deadline taskY = now0 + 179999999"
  by (simp_all add: taskY_def mkTask_def)

lemma fields_U: "completed taskU = False" "deadline taskU = now0 + 108000000"
  by (simp_all add: taskU_def mkTask_def)

lemma fields_V: "completed taskV = False" "deadline taskV = now0 + 86400000"
  by (simp_all add: taskV_def mkTask_def)

lemma fields_C: "completed taskC = True" "deadline taskC = now0 + 180000000"
  by (simp_all add: taskC_def mkTask_def)

lemmas example_fields =
  fields_A fields_B fields_H fields_L fields_HX fields_MX fields_X fields_Y fields_U fields_V fields_C

subsection \<open>The sort on a clock that stands still\<close>

lemma sortTasks_still:
  "\<forall>i\<ge>k. clk i = now \<Longrightarrow>
   fst (sortTasksByPriority clk tasks k) = sort_key (taskKey now) tasks"
  by (simp add: sortTasksByPriority_def sort_still)

lemma sortTasks_frozen:
  "fst (sortTasksByPriority (frozen now) tasks k) = sort_key (taskKey now) tasks"
  by (rule sortTasks_still) (simp add: frozen_def)

lemma sorted_key_precedes:
  "sorted_wrt (spec_precedes now) (sort_key (taskKey now) tasks)"
proof -
  have "sorted (map (taskKey now) (sort_key (taskKey now) tasks))" by (rule sorted_sort_key)
  then show ?thesis by (simp add: sorted_map key_le_precedes)
qed

lemma stable_key_tied:
  "filter (spec_tied now t) (sort_key (taskKey now) tasks) = filter (spec_tied now t) tasks"
  using sort_key_stable[of "taskKey now" "taskKey now t" tasks]
  by (simp add: key_eq_tied)

lemma filterTasks_sort_key:
  "filterTasks (sort_key f tasks) flt = sort_key f (filterTasks tasks flt)"
  by (simp add: filterTasks_def filter_sort)

subsection \<open>The store\<close>

lemma sortTasks_ref_result:
  assumes "sortTasksByPriority_ref clk r s k = ((r', s'), k')"
  shows "r' = fresh s"
    and "arrays s' r' = fst (sortTasksByPriority clk (arrays s r) k)"
    and "r \<noteq> fresh s \<Longrightarrow> arrays s' r = arrays s r"
  using assms
  by (auto simp add: sortTasksByPriority_ref_def spread_ref_def array_new_def sort_ref_def
      sortTasksByPriority_def split_beta Let_def)

lemma filterTasks_ref_result:
  assumes "filterTasks_ref r flt s = (r', s')"
  shows "arrays s' r' = filterTasks (arrays s r) flt"
    and "r \<noteq> fresh s \<Longrightarrow> arrays s' r = arrays s r"
  using assms
  by (auto simp add: filterTasks_ref_def filter_ref_def array_new_def filterTasks_def
      split: if_splits)

lemma subseq_filterTasks: "subseq (filterTasks tasks flt) tasks"
  by (simp add: filterTasks_def)

subsection \<open>Evaluating the examples\<close>

lemmas clock_defs = frozen_def ticking_def stepping_def msLater_def

lemmas sort_eval =
  sortAndFilterTasks_def sortTasksByPriority_def filterTasks_def split_beta Let_def
  compare_negative compare_reads score_unfold clock_defs example_fields example_scores

lemmas ref_defs =
  sortTasksByPriority_ref_def filterTasks_ref_def spread_ref_def filter_ref_def
  sort_ref_def array_new_def store0_def

section \<open>Scoring\<close>

text \<open>
  C1. The claim that \<open>calculateTaskScore\<close> returns base + bonus - min(hoursRemaining,
  1000) fails when the formula is read in exact arithmetic: for a HIGH task due one
  millisecond ago the formula gives 1100 + 1/3600000, and the code returns the binary64
  number next to it.
\<close>

theorem score_formula_exact_counterexample:
  "fst (calculateTaskScore (frozen now0) taskL 0) = 302365697714755 / 274877906944
   \<and> exact_score now0 taskL = 3960000001 / 3600000
   \<and> fst (calculateTaskScore (frozen now0) taskL 0) \<noteq> exact_score now0 taskL"
proof -
  have c: "fst (calculateTaskScore (frozen now0) taskL 0) = 302365697714755 / 274877906944"
    by (simp add: score_unfold frozen_def score_L_0 fields_L)
  have e: "exact_score now0 taskL = 3960000001 / 3600000"
    by (simp add: exact_score_def exact_hoursRemaining_def spec_bonus_def spec_base_def
        taskL_def mkTask_def)
  show ?thesis unfolding c e by simp
qed

text \<open>
  C1, amended. For every task and every clock reading \<open>now\<close>, \<open>calculateTaskScore\<close>
  returns \<open>-1000\<close> when the task is completed, and otherwise base + bonus -
  min(hoursRemaining, 1000) computed in JavaScript numbers: the base is 100, 50 or 10 for
  HIGH, MEDIUM or LOW, hoursRemaining is the binary64 quotient of deadline - now by
  3600000, the bonus is the first matching tier of +1000 (overdue), +500 (under 24 h),
  +200 (under 48 h), +50 (under 168 h), else 0, and the final subtraction is rounded to
  binary64. \<open>now\<close> is the reading \<open>clk k\<close> that the call takes.
\<close>

theorem calculateTaskScore_formula:
  "fst (calculateTaskScore clk task k) = spec_score (clk k) task"
  by (simp add: score_unfold)

theorem calculateTaskScore_formula_witness:
  "fst (calculateTaskScore (frozen now0) taskA 0) = 1101
   \<and> spec_score (frozen now0 0) taskA = 1101
   \<and> fst (calculateTaskScore (frozen now0) taskB 0) = 50
   \<and> fst (calculateTaskScore (frozen now0) taskC 0) = - 1000
   \<and> fst (calculateTaskScore (frozen now0) taskL 0) = 302365697714755 / 274877906944"
proof -
  have c: "spec_score now0 taskC = - 1000" by (simp add: spec_score_def fields_C)
  show ?thesis
    using calculateTaskScore_formula[of "frozen now0" taskA 0]
    by (simp add: score_unfold frozen_def example_scores c)
qed

text \<open>
  C5. Of two tasks that differ in nothing but \<open>completed\<close>, scored at the same clock
  reading, the completed one scores strictly less than the open one.
\<close>

theorem completed_scores_lower:
  "fst (calculateTaskScore clk (task\<lparr>completed := True\<rparr>) k)
     < fst (calculateTaskScore clk (task\<lparr>completed := False\<rparr>) k)"
proof -
  have "- 990 \<le> spec_score (clk k) (task\<lparr>completed := False\<rparr>)"
    by (rule spec_score_open_lower) simp
  moreover have "spec_score (clk k) (task\<lparr>completed := True\<rparr>) = - 1000"
    by (simp add: spec_score_def)
  ultimately show ?thesis by (simp add: score_unfold)
qed

theorem completed_scores_lower_witness:
  "fst (calculateTaskScore (frozen now0) (taskB\<lparr>completed := True\<rparr>) 0) = - 1000
   \<and> fst (calculateTaskScore (frozen now0) (taskB\<lparr>completed := False\<rparr>) 0) = 50
   \<and> fst (calculateTaskScore (frozen now0) (taskB\<lparr>completed := True\<rparr>) 0)
       < fst (calculateTaskScore (frozen now0) (taskB\<lparr>completed := False\<rparr>) 0)"
proof -
  have o: "taskB\<lparr>completed := False\<rparr> = taskB" by (simp add: taskB_def mkTask_def)
  have "fst (calculateTaskScore (frozen now0) (taskB\<lparr>completed := True\<rparr>) 0) = - 1000"
    by (simp add: score_unfold spec_score_def)
  moreover have "fst (calculateTaskScore (frozen now0) (taskB\<lparr>completed := False\<rparr>) 0) = 50"
    unfolding o by (simp add: score_unfold frozen_def score_B_0)
  ultimately show ?thesis
    using completed_scores_lower[of "frozen now0" taskB 0] by simp
qed

text \<open>
  C8. The claim that the score is always an integer fails: a HIGH task due in half an hour
  scores 100 + 500 - 1/2.
\<close>

theorem score_not_integer_counterexample:
  "fst (calculateTaskScore (frozen now0) taskH 0) = 1199 / 2
   \<and> fst (calculateTaskScore (frozen now0) taskH 0) \<notin> \<int>"
proof -
  have v: "fst (calculateTaskScore (frozen now0) taskH 0) = 1199 / 2"
    by (simp add: score_unfold frozen_def score_H_0)
  have "(1199 / 2 :: rat) \<notin> \<int>"
    by (rule fraction_numeral_not_in_Ints) simp
  then show ?thesis unfolding v by simp
qed

text \<open>
  C8, amended. The score is a signed number that need not be an integer. It is an integer
  whenever the task is completed, or the deadline is at least 1000 hours after the clock
  reading, or the deadline is a whole number of hours away from the clock reading (the
  distance being at most \<open>2 ^ 53\<close> milliseconds, so that binary64 holds it exactly).
\<close>

theorem calculateTaskScore_integer_cases:
  assumes "completed task \<or> 3600000000 \<le> deadline task - clk k
     \<or> (3600000 dvd (deadline task - clk k) \<and> \<bar>deadline task - clk k\<bar> \<le> 9007199254740992)"
  shows "fst (calculateTaskScore clk task k) \<in> \<int>"
proof (cases "completed task")
  case True
  then show ?thesis by (simp add: score_unfold spec_score_def)
next
  case False
  from assms False consider
      (far) "3600000000 \<le> deadline task - clk k"
    | (whole) "3600000 dvd (deadline task - clk k)"
        "\<bar>deadline task - clk k\<bar> \<le> 9007199254740992"
    by blast
  then have "spec_score (clk k) task \<in> \<int>"
  proof cases
    case far
    have "spec_base (priority task) - 1000 \<in> \<int>"
      by (cases "priority task") (simp_all add: spec_base_def)
    then show ?thesis using spec_score_far[OF False far] by simp
  next
    case whole
    from whole(1) obtain j where j: "deadline task - clk k = 3600000 * j"
      by (auto elim: dvdE)
    show ?thesis using False j whole(2) by (rule spec_score_whole_hours)
  qed
  then show ?thesis by (simp add: score_unfold)
qed

theorem calculateTaskScore_integer_cases_witness:
  "3600000 dvd (deadline taskA - frozen now0 0)
   \<and> \<bar>deadline taskA - frozen now0 0\<bar> \<le> 9007199254740992
   \<and> fst (calculateTaskScore (frozen now0) taskA 0) = 1101
   \<and> fst (calculateTaskScore (frozen now0) taskA 0) \<in> \<int>"
proof -
  have h: "3600000 dvd (deadline taskA - frozen now0 0)"
    "\<bar>deadline taskA - frozen now0 0\<bar> \<le> 9007199254740992"
    by (simp_all add: fields_A frozen_def)
  then have "completed taskA \<or> 3600000000 \<le> deadline taskA - frozen now0 0
     \<or> (3600000 dvd (deadline taskA - frozen now0 0)
         \<and> \<bar>deadline taskA - frozen now0 0\<bar> \<le> 9007199254740992)"
    by blast
  from calculateTaskScore_integer_cases[of taskA "frozen now0" 0, OF this] h show ?thesis
    by (simp add: score_unfold frozen_def score_A_0)
qed

section \<open>Sorting\<close>

text \<open>
  C2. The claim fails when the clock moves during the call. Sorting \<open>[taskX, taskY]\<close>
  takes two readings, two milliseconds apart. At either reading \<open>taskY\<close>, due one
  millisecond earlier, has the strictly higher score, and neither task is completed; but
  the comparator scores \<open>taskY\<close> at the first reading and \<open>taskX\<close> at the second, finds
  \<open>taskX\<close> higher, and the list comes back with \<open>taskX\<close> first.
\<close>

theorem sort_order_resampled_counterexample:
  "fst (sortTasksByPriority stepping [taskX, taskY] 0) = [taskX, taskY]
   \<and> snd (sortTasksByPriority stepping [taskX, taskY] 0) = 2
   \<and> completed taskX = completed taskY
   \<and> scoreAt (stepping 0) taskX < scoreAt (stepping 0) taskY
   \<and> scoreAt (stepping 1) taskX < scoreAt (stepping 1) taskY"
  by (simp add: sort_eval scoreAt_spec)

text \<open>
  C2, amended. When every clock reading taken during the call returns the same instant
  \<open>now\<close>, \<open>sortTasksByPriority\<close> sorts by the total order of the specification: open
  tasks before completed ones, then the higher score first, then the earlier deadline
  first (\<open>spec_precedes\<close>, which is total and transitive); tasks that tie in all three
  keep their input order. The result is a new array: the array passed in holds afterwards
  what it held before.
\<close>

theorem sortTasksByPriority_sorted_stable:
  assumes "sortTasksByPriority_ref (frozen now) r s k = ((r', s'), k')"
    and "r < fresh s"
  shows "arrays s' r' = fst (sortTasksByPriority (frozen now) (arrays s r) k)
       \<and> sorted_wrt (spec_precedes now) (arrays s' r')
       \<and> (\<forall>a b. spec_precedes now a b \<or> spec_precedes now b a)
       \<and> (\<forall>a b c. spec_precedes now a b \<longrightarrow> spec_precedes now b c \<longrightarrow> spec_precedes now a c)
       \<and> (\<forall>t. filter (spec_tied now t) (arrays s' r') = filter (spec_tied now t) (arrays s r))
       \<and> arrays s' r = arrays s r \<and> r' \<noteq> r"
proof -
  note res = sortTasks_ref_result[OF assms(1)]
  have ne: "r \<noteq> fresh s" using assms(2) by simp
  have c: "arrays s' r' = sort_key (taskKey now) (arrays s r)"
    by (simp add: res(2) sortTasks_frozen)
  have t: "\<forall>a b. spec_precedes now a b \<or> spec_precedes now b a"
    by (simp add: spec_precedes_total)
  have tr: "\<forall>a b c. spec_precedes now a b \<longrightarrow> spec_precedes now b c \<longrightarrow> spec_precedes now a c"
    by (blast intro: spec_precedes_trans)
  have "arrays s' r' = fst (sortTasksByPriority (frozen now) (arrays s r) k)"
    by (rule res(2))
  moreover have "sorted_wrt (spec_precedes now) (arrays s' r')"
    by (simp add: c sorted_key_precedes)
  moreover have "\<forall>t. filter (spec_tied now t) (arrays s' r') = filter (spec_tied now t) (arrays s r)"
    by (simp add: c stable_key_tied)
  moreover have "arrays s' r = arrays s r" by (rule res(3)[OF ne])
  moreover have "r' \<noteq> r" using res(1) ne by simp
  ultimately show ?thesis using t tr by blast
qed

theorem sortTasksByPriority_sorted_stable_witness:
  "fst (fst (sortTasksByPriority_ref (frozen now0) 0 store0 0)) = 1
   \<and> arrays (snd (fst (sortTasksByPriority_ref (frozen now0) 0 store0 0))) 1
       = [taskA, taskB, taskC]
   \<and> arrays (snd (fst (sortTasksByPriority_ref (frozen now0) 0 store0 0))) 0
       = [taskC, taskB, taskA]
   \<and> sorted_wrt (spec_precedes now0)
       (arrays (snd (fst (sortTasksByPriority_ref (frozen now0) 0 store0 0)))
          (fst (fst (sortTasksByPriority_ref (frozen now0) 0 store0 0))))
   \<and> fst (sortTasksByPriority (frozen now0) [taskMX, taskHX] 0) = [taskHX, taskMX]"
proof -
  let ?X = "sortTasksByPriority_ref (frozen now0) 0 store0 0"
  have h: "?X = ((fst (fst ?X), snd (fst ?X)), snd ?X)" by simp
  have f: "0 < fresh store0" by (simp add: store0_def)
  have e: "fst (fst ?X) = 1
    \<and> arrays (snd (fst ?X)) 1 = [taskA, taskB, taskC]
    \<and> arrays (snd (fst ?X)) 0 = [taskC, taskB, taskA]"
    by (simp add: ref_defs sort_eval)
  have x: "fst (sortTasksByPriority (frozen now0) [taskMX, taskHX] 0) = [taskHX, taskMX]"
    by (simp add: sort_eval)
  from sortTasksByPriority_sorted_stable[OF h f] e x show ?thesis by blast
qed

text \<open>
  C10. On any clock, \<open>sortTasksByPriority\<close> returns a permutation of its input: the
  same length and the same multiset of tasks. Hence \<open>sortAndFilterTasks\<close> returns a
  permutation of what \<open>filterTasks\<close> selects.
\<close>

theorem sortTasksByPriority_permutation:
  "mset (fst (sortTasksByPriority clk tasks k)) = mset tasks
   \<and> length (fst (sortTasksByPriority clk tasks k)) = length tasks
   \<and> mset (fst (sortAndFilterTasks clk tasks flt k)) = mset (filterTasks tasks flt)"
proof -
  have m: "\<And>xs. mset (fst (sortTasksByPriority clk xs k)) = mset xs"
    by (simp add: sortTasksByPriority_def mset_array_sort)
  have "size (mset (fst (sortTasksByPriority clk tasks k))) = size (mset tasks)"
    by (simp only: m)
  then have "length (fst (sortTasksByPriority clk tasks k)) = length tasks"
    by simp
  then show ?thesis by (simp add: m sortAndFilterTasks_def)
qed

theorem sortTasksByPriority_permutation_witness:
  "fst (sortTasksByPriority ticking [taskC, taskB, taskA] 0) = [taskA, taskB, taskC]
   \<and> mset (fst (sortTasksByPriority ticking [taskC, taskB, taskA] 0))
       = mset [taskC, taskB, taskA]
   \<and> mset (fst (sortAndFilterTasks ticking [taskC, taskB, taskA] ''active'' 0))
       = mset (filterTasks [taskC, taskB, taskA] ''active'')"
proof -
  have "fst (sortTasksByPriority ticking [taskC, taskB, taskA] 0) = [taskA, taskB, taskC]"
    by (simp add: sort_eval)
  with sortTasksByPriority_permutation[of ticking "[taskC, taskB, taskA]" 0 "''active''"]
  show ?thesis by blast
qed

section \<open>Filtering and counting\<close>

text \<open>
  C3. Every task that \<open>filterTasks\<close> returns for \<open>'active'\<close> is open, every task it
  returns for \<open>'completed'\<close> is completed, and for \<open>'all'\<close> it returns the whole list in
  its order. For every selection the result is a subsequence of the input, and the input
  array holds afterwards what it held before.
\<close>

theorem filterTasks_correct:
  assumes "filterTasks_ref r flt s = (r', s')" and "r < fresh s"
  shows "(\<forall>task \<in> set (filterTasks tasks ''active''). completed task = False)
       \<and> (\<forall>task \<in> set (filterTasks tasks ''completed''). completed task = True)
       \<and> filterTasks tasks ''all'' = tasks
       \<and> subseq (filterTasks tasks sel) tasks
       \<and> arrays s' r' = filterTasks (arrays s r) flt
       \<and> arrays s' r = arrays s r"
proof -
  have ne: "r \<noteq> fresh s" using assms(2) by simp
  have a: "\<forall>task \<in> set (filterTasks tasks ''active''). completed task = False"
    by (simp add: filterTasks_def)
  have c: "\<forall>task \<in> set (filterTasks tasks ''completed''). completed task = True"
    by (simp add: filterTasks_def)
  have l: "filterTasks tasks ''all'' = tasks"
    by (simp add: filterTasks_def)
  from a c l subseq_filterTasks filterTasks_ref_result[OF assms(1)] ne
  show ?thesis by blast
qed

theorem filterTasks_correct_witness:
  "filterTasks [taskC, taskB, taskA] ''active'' = [taskB, taskA]
   \<and> filterTasks [taskC, taskB, taskA] ''completed'' = [taskC]
   \<and> filterTasks [taskC, taskB, taskA] ''all'' = [taskC, taskB, taskA]
   \<and> subseq (filterTasks [taskC, taskB, taskA] ''active'') [taskC, taskB, taskA]
   \<and> arrays (snd (filterTasks_ref 0 ''active'' store0)) (fst (filterTasks_ref 0 ''active'' store0))
       = [taskB, taskA]
   \<and> arrays (snd (filterTasks_ref 0 ''active'' store0)) 0 = [taskC, taskB, taskA]"
proof -
  let ?X = "filterTasks_ref 0 ''active'' store0"
  have h: "?X = (fst ?X, snd ?X)" by simp
  have f: "0 < fresh store0" by (simp add: store0_def)
  have e: "filterTasks [taskC, taskB, taskA] ''active'' = [taskB, taskA]
    \<and> filterTasks [taskC, taskB, taskA] ''completed'' = [taskC]
    \<and> arrays store0 0 = [taskC, taskB, taskA]"
    by (simp add: filterTasks_def example_fields store0_def)
  from filterTasks_correct[OF h f, of "[taskC, taskB, taskA]" "''active''"] e
  show ?thesis by simp
qed

text \<open>
  C6. A selection that is none of \<open>'all'\<close>, \<open>'active'\<close>, \<open>'completed'\<close> is treated as
  \<open>'all'\<close>: \<open>filterTasks\<close> returns the whole list in its order. The function has no
  failing branch.
\<close>

theorem filterTasks_unrecognized:
  assumes "flt \<noteq> ''all''" and "flt \<noteq> ''active''" and "flt \<noteq> ''completed''"
  shows "filterTasks tasks flt = tasks \<and> filterTasks tasks flt = filterTasks tasks ''all''"
  using assms by (simp add: filterTasks_def)

theorem filterTasks_unrecognized_witness:
  "''done'' \<noteq> ''all'' \<and> ''done'' \<noteq> ''active'' \<and> ''done'' \<noteq> ''completed''
   \<and> filterTasks [taskA, taskC] ''done'' = [taskA, taskC]"
proof -
  have h: "''done'' \<noteq> ''all''" "''done'' \<noteq> ''active''" "''done'' \<noteq> ''completed''"
    by simp_all
  from filterTasks_unrecognized[OF h, of "[taskA, taskC]"] h show ?thesis by simp
qed

text \<open>
  C4. \<open>getTaskCounts\<close> returns the length of the list, the number of positions that hold
  an open task and the number of positions that hold a completed task, and the first is
  the sum of the other two. The function has no selection argument.
\<close>

theorem getTaskCounts_correct:
  "count_all (getTaskCounts tasks) = length tasks
   \<and> count_active (getTaskCounts tasks)
       = card {i. i < length tasks \<and> completed (tasks ! i) = False}
   \<and> count_completed (getTaskCounts tasks)
       = card {i. i < length tasks \<and> completed (tasks ! i) = True}
   \<and> count_all (getTaskCounts tasks)
       = count_active (getTaskCounts tasks) + count_completed (getTaskCounts tasks)"
proof -
  have "length (filter (\<lambda>task. completed task) tasks)
          + length (filter (\<lambda>task. \<not> completed task) tasks) = length tasks"
    by (rule sum_length_filter_compl)
  then show ?thesis
    by (simp add: getTaskCounts_def length_filter_conv_card)
qed

theorem getTaskCounts_correct_witness:
  "getTaskCounts [taskA, taskB, taskC]
     = \<lparr> count_all = 3, count_active = 2, count_completed = 1 \<rparr>
   \<and> count_all (getTaskCounts [taskA, taskB, taskC])
       = count_active (getTaskCounts [taskA, taskB, taskC])
         + count_completed (getTaskCounts [taskA, taskB, taskC])"
  using getTaskCounts_correct[of "[taskA, taskB, taskC]"]
  by (simp add: getTaskCounts_def example_fields)

section \<open>Filter and sort together\<close>

text \<open>
  C7. The claim fails when the clock moves between the two computations. Filtering and
  sorting \<open>[taskU, taskV]\<close> takes two readings and puts \<open>taskU\<close> first; sorting and
  filtering the same list one millisecond later, when \<open>taskV\<close> has come under 24 hours
  and gained the +500 tier, puts \<open>taskV\<close> first.
\<close>

theorem filter_sort_resampled_counterexample:
  "sortAndFilterTasks msLater [taskU, taskV] ''all'' 0 = ([taskU, taskV], 2)
   \<and> filterTasks (fst (sortTasksByPriority msLater [taskU, taskV] 2)) ''all''
       = [taskV, taskU]"
  by (simp add: sort_eval)

text \<open>
  C7, amended. When every clock reading taken during both computations returns the same
  instant \<open>now\<close>, filtering and then sorting gives the same list as sorting and then
  filtering.
\<close>

theorem sortAndFilterTasks_commutes:
  "fst (sortAndFilterTasks (frozen now) tasks flt k)
     = filterTasks (fst (sortTasksByPriority (frozen now) tasks k')) flt"
  by (simp add: sortAndFilterTasks_def sortTasks_frozen filterTasks_sort_key)

theorem sortAndFilterTasks_commutes_witness:
  "fst (sortAndFilterTasks (frozen now0) [taskC, taskB, taskA] ''active'' 0) = [taskA, taskB]
   \<and> filterTasks (fst (sortTasksByPriority (frozen now0) [taskC, taskB, taskA] 0)) ''active''
       = [taskA, taskB]"
proof -
  have "fst (sortAndFilterTasks (frozen now0) [taskC, taskB, taskA] ''active'' 0) = [taskA, taskB]"
    by (simp add: sort_eval)
  with sortAndFilterTasks_commutes[of now0 "[taskC, taskB, taskA]" "''active''" 0 0]
  show ?thesis by simp
qed

text \<open>
  C9. The claim that the clock is read once per call fails. Sorting the two open tasks
  \<open>[taskV, taskU]\<close> takes two readings. On a clock that advances one millisecond
  between them, \<open>taskV\<close> is scored at the second reading, where it is under 24 hours
  from its deadline, and stays first; on a clock that stands at the same first reading it
  is scored below \<open>taskU\<close> and moves behind it.
\<close>

theorem clock_resampled_counterexample:
  "sortAndFilterTasks ticking [taskV, taskU] ''all'' 0 = ([taskV, taskU], 2)
   \<and> sortAndFilterTasks (frozen now0) [taskV, taskU] ''all'' 0 = ([taskU, taskV], 2)
   \<and> ticking 0 = frozen now0 0"
  by (simp add: sort_eval)

text \<open>
  C9, amended. The clock is read anew for every open task that is scored: a comparison of
  two open tasks takes two readings, any other comparison none. When every reading from
  the start of a call on returns the same instant \<open>now\<close>, the output depends only on the
  task list, the selection and \<open>now\<close>: two such calls return the same list.
\<close>

theorem sortAndFilterTasks_deterministic:
  assumes "\<forall>i\<ge>k1. clk1 i = now" and "\<forall>i\<ge>k2. clk2 i = now"
  shows "fst (sortAndFilterTasks clk1 tasks flt k1) = fst (sortAndFilterTasks clk2 tasks flt k2)
       \<and> snd (compareTasks clk a b k) = (if \<not> completed a \<and> \<not> completed b then k + 2 else k)"
  by (simp add: sortAndFilterTasks_def sortTasks_still[OF assms(1)] sortTasks_still[OF assms(2)]
      compare_reads)

theorem sortAndFilterTasks_deterministic_witness:
  "fst (sortAndFilterTasks (frozen now0) [taskV, taskU] ''all'' 0)
     = fst (sortAndFilterTasks (frozen now0) [taskV, taskU] ''all'' 7)
   \<and> snd (compareTasks ticking taskV taskU 0) = 2
   \<and> snd (compareTasks ticking taskC taskU 0) = 0"
proof -
  have h1: "\<forall>i\<ge>0. frozen now0 i = now0" by (simp add: frozen_def)
  have h2: "\<forall>i\<ge>7. frozen now0 i = now0" by (simp add: frozen_def)
  from sortAndFilterTasks_deterministic[OF h1 h2, of "[taskV, taskU]" "''all''" ticking taskV taskU 0]
  have a: "fst (sortAndFilterTasks (frozen now0) [taskV, taskU] ''all'' 0)
     = fst (sortAndFilterTasks (frozen now0) [taskV, taskU] ''all'' 7)
     \<and> snd (compareTasks ticking taskV taskU 0) = 2"
    by (simp add: example_fields)
  have "snd (compareTasks ticking taskC taskU 0) = 0"
    by (simp add: compare_reads example_fields)
  with a show ?thesis by simp
qed

end
